theory Spec2Isabelle
  imports Complex_Main "HOL-Library.Multiset"
begin

section \<open>Cards and the deck\<close>

text \<open>
  \<^verbatim>\<open>SUITS\<close> and \<^verbatim>\<open>RANKS\<close> of \<^verbatim>\<open>TexasHoldem.tsx\<close>, in the order of the source arrays.
  A \<^verbatim>\<open>Card\<close> is the object \<^verbatim>\<open>{ rank, suit }\<close>.
\<close>

datatype suit = Spade | Heart | Diamond | Club

datatype rank = R2 | R3 | R4 | R5 | R6 | R7 | R8 | R9 | R10 | RJ | RQ | RK | RA

definition SUITS :: "suit list" where
  "SUITS = [Spade, Heart, Diamond, Club]"

definition RANKS :: "rank list" where
  "RANKS = [R2, R3, R4, R5, R6, R7, R8, R9, R10, RJ, RQ, RK, RA]"

record card =
  rank :: rank
  suit :: suit

definition Card :: "rank \<Rightarrow> suit \<Rightarrow> card" where
  "Card r s = \<lparr> rank = r, suit = s \<rparr>"

section \<open>JavaScript values used by the evaluator\<close>

text \<open>
  Numbers are modelled as exact rationals, together with \<^verbatim>\<open>-Infinity\<close>, which is what
  \<^verbatim>\<open>Math.max()\<close> returns on no arguments. The amounts the program handles (small integers,
  halves of them, and \<^verbatim>\<open>n / 100\<close> for \<open>2 \<le> n \<le> 14\<close> added to an integer between \<open>-1\<close>
  and \<open>9\<close>) are far apart compared with the rounding of a double, so every comparison
  of the source has the outcome of the exact comparison.
\<close>

datatype jsnum = NegInfinity | Num rat

fun js_plus :: "jsnum \<Rightarrow> jsnum \<Rightarrow> jsnum" where
  "js_plus (Num a) (Num b) = Num (a + b)"
| "js_plus _ _ = NegInfinity"

fun js_div :: "jsnum \<Rightarrow> rat \<Rightarrow> jsnum" where
  "js_div (Num a) d = Num (a / d)"
| "js_div NegInfinity d = NegInfinity"

fun js_less :: "jsnum \<Rightarrow> jsnum \<Rightarrow> bool" where
  "js_less (Num a) (Num b) = (a < b)"
| "js_less NegInfinity (Num b) = True"
| "js_less _ NegInfinity = False"

text \<open>\<^verbatim>\<open>Array.prototype.indexOf\<close>: the first position of the element, or \<open>-1\<close>.\<close>

fun indexOf :: "'a list \<Rightarrow> 'a \<Rightarrow> int" where
  "indexOf [] x = -1"
| "indexOf (y # ys) x =
     (if y = x then 0 else (let i = indexOf ys x in if i < 0 then -1 else i + 1))"

text \<open>
  The \<^verbatim>\<open>reduce\<close> that counts occurrences in an object: \<^verbatim>\<open>acc[val] = (acc[val] || 0) + 1\<close>.
  The object is an association list in insertion order. \<^verbatim>\<open>Object.values\<close> lists string keys
  in insertion order and integer keys in ascending order; the integer keys are inserted
  from the sorted \<^verbatim>\<open>ranks\<close>, so both orders agree with the list.
\<close>

fun incr :: "'k \<Rightarrow> ('k \<times> nat) list \<Rightarrow> ('k \<times> nat) list" where
  "incr k [] = [(k, 1)]"
| "incr k ((k', n) # rest) = (if k = k' then (k', n + 1) # rest else (k', n) # incr k rest)"

definition countBy :: "'k list \<Rightarrow> ('k \<times> nat) list" where
  "countBy xs = foldl (\<lambda>acc v. incr v acc) [] xs"

definition object_values :: "('k \<times> nat) list \<Rightarrow> nat list" where
  "object_values obj = map snd obj"

text \<open>\<^verbatim>\<open>[...new Set(ranks)]\<close>: the elements in order of first occurrence.\<close>

definition new_Set :: "'a list \<Rightarrow> 'a list" where
  "new_Set xs = rev (remdups (rev xs))"

text \<open>\<^verbatim>\<open>slice(-5)\<close>: the last five elements, or the whole array when it is shorter.\<close>

definition slice_last5 :: "'a list \<Rightarrow> 'a list" where
  "slice_last5 xs = drop (length xs - 5) xs"

text \<open>\<^verbatim>\<open>every((v, i, arr) => i === 0 || v === arr[i - 1] + 1)\<close>.\<close>

fun every_succ :: "int list \<Rightarrow> bool" where
  "every_succ (a # b # rest) = (b = a + 1 \<and> every_succ (b # rest))"
| "every_succ _ = True"

text \<open>\<^verbatim>\<open>Math.max(...ranks)\<close>.\<close>

fun Math_max :: "int list \<Rightarrow> jsnum" where
  "Math_max [] = NegInfinity"
| "Math_max (x # xs) = Num (of_int (fold max xs x))"

section \<open>The hand evaluator\<close>

record evaluation =
  rank_name :: string
  strength :: jsnum

definition rankValue :: "card \<Rightarrow> int" where
  "rankValue c = indexOf RANKS (rank c) + 2"

definition ranksOf :: "card list \<Rightarrow> int list" where
  "ranksOf cards = sort (map rankValue cards)"

definition valuesOf :: "card list \<Rightarrow> nat list" where
  "valuesOf cards = object_values (countBy (ranksOf cards))"

definition flush :: "card list \<Rightarrow> bool" where
  "flush cards = (filter (\<lambda>count. 5 \<le> count) (object_values (countBy (map suit cards))) \<noteq> [])"

definition uniqueRanks :: "card list \<Rightarrow> int list" where
  "uniqueRanks cards = new_Set (ranksOf cards)"

definition straight :: "card list \<Rightarrow> bool" where
  "straight cards =
     (5 \<le> length (uniqueRanks cards) \<and> every_succ (slice_last5 (uniqueRanks cards)))"

definition rankOrder :: "string list" where
  "rankOrder =
     [''High Card'', ''One Pair'', ''Two Pairs'', ''Triple'', ''Straight'', ''Flush'',
      ''Full-House'', ''Four Card'', ''Straight Flush'', ''Royale Straight Flush'']"

definition rankNameOf :: "card list \<Rightarrow> string" where
  "rankNameOf cards =
     (let ranks = ranksOf cards; vals = valuesOf cards in
      if straight cards \<and> flush cards \<and> 14 \<in> set ranks then ''Royale Straight Flush''
      else if straight cards \<and> flush cards then ''Straight Flush''
      else if 4 \<in> set vals then ''Four Cards''
      else if 3 \<in> set vals \<and> 2 \<in> set vals then ''Full-House''
      else if flush cards then ''Flush''
      else if straight cards then ''Straight''
      else if 3 \<in> set vals then ''Triple''
      else if length (filter (\<lambda>v. v = 2) vals) = 2 then ''Two Pairs''
      else if 2 \<in> set vals then ''One Pair''
      else ''High Card'')"

definition evaluateHandRank :: "card list \<Rightarrow> evaluation" where
  "evaluateHandRank cards =
     (let rankName = rankNameOf cards;
          base = indexOf rankOrder rankName;
          kicker = js_div (Math_max (ranksOf cards)) 100
      in \<lparr> rank_name = rankName, strength = js_plus (Num (of_int base)) kicker \<rparr>)"

section \<open>The deck\<close>

text \<open>
  \<^verbatim>\<open>Math.random()\<close> is a parameter: \<open>rnd k\<close> is the value of the draw numbered \<open>k\<close>,
  a number in \<open>[0, 1)\<close>. In \<^verbatim>\<open>freshDeck\<close> the draw of loop iteration \<open>i\<close> is \<open>rnd i\<close>.
\<close>

definition valid_rnd :: "(nat \<Rightarrow> rat) \<Rightarrow> bool" where
  "valid_rnd rnd = (\<forall>k. 0 \<le> rnd k \<and> rnd k < 1)"

definition orderedDeck :: "card list" where
  "orderedDeck = concat (map (\<lambda>s. map (\<lambda>r. \<lparr> rank = r, suit = s \<rparr>) RANKS) SUITS)"

text \<open>
  The shuffle loop \<^verbatim>\<open>for (let i = deck.length - 1; i > 0; i--)\<close> with
  \<^verbatim>\<open>j = Math.floor(Math.random() * (i + 1))\<close> and the swap
  \<^verbatim>\<open>[deck[i], deck[j]] = [deck[j], deck[i]]\<close>.
\<close>

fun shuffle :: "(nat \<Rightarrow> rat) \<Rightarrow> nat \<Rightarrow> card list \<Rightarrow> card list" where
  "shuffle rnd i deck =
     (if 0 < i then
        (let j = nat \<lfloor>rnd i * of_nat (i + 1)\<rfloor>
         in shuffle rnd (i - 1) (deck[i := deck ! j, j := deck ! i]))
      else deck)"

declare shuffle.simps [simp del]

definition freshDeck :: "(nat \<Rightarrow> rat) \<Rightarrow> card list" where
  "freshDeck rnd = shuffle rnd (length orderedDeck - 1) orderedDeck"

section \<open>The round state and its handlers\<close>

text \<open>
  The ten \<^verbatim>\<open>useState\<close> cells of the component \<^verbatim>\<open>TexasHoldem\<close> form one record. A handler
  runs on the values of the last render (the snapshot); a setter called with a function
  (\<^verbatim>\<open>setPot((p) => p + bet)\<close>) acts on the pending value of its cell, a setter called with
  a value overwrites it. So every handler below takes the snapshot \<open>s\<close>, from which all
  reads are made, and where several setters are chained, the pending state \<open>q\<close>, to which
  the updates are applied in order.
\<close>

record state =
  deck :: "card list"
  player :: "card list"
  cpu :: "card list"
  community :: "card list"
  message :: string
  stage :: string
  playerChips :: rat
  cpuChips :: rat
  pot :: rat
  bet :: rat

definition initialState :: "(nat \<Rightarrow> rat) \<Rightarrow> state" where
  "initialState rnd =
     \<lparr> deck = freshDeck rnd, player = [], cpu = [], community = [], message = [],
       stage = ''ready'', playerChips = 1000, cpuChips = 1000, pot = 0, bet = 50 \<rparr>"

text \<open>
  \<^verbatim>\<open>d.pop()\<close> removes and returns the last element. On an empty array it returns
  \<^verbatim>\<open>undefined\<close>, which the source would store as a card (the \<^verbatim>\<open>!\<close> is erased at run time) and
  the next render would fail on (\<^verbatim>\<open>c.suit\<close> of \<^verbatim>\<open>undefined\<close>); the model reports that as the
  error \<open>UndefinedCard\<close>.
\<close>

datatype error = UndefinedCard

definition pop :: "card list \<Rightarrow> (card \<times> card list) option" where
  "pop d = (if d = [] then None else Some (last d, butlast d))"

definition deal :: "state \<Rightarrow> error + state" where
  "deal s =
     (if playerChips s \<le> 0 \<or> cpuChips s \<le> 0
      then Inr (s\<lparr> message := ''Game Over. One player is bankrupt.'' \<rparr>)
      else
        (case pop (deck s) of None \<Rightarrow> Inl UndefinedCard | Some (p1, d1) \<Rightarrow>
        (case pop d1 of None \<Rightarrow> Inl UndefinedCard | Some (p2, d2) \<Rightarrow>
        (case pop d2 of None \<Rightarrow> Inl UndefinedCard | Some (c1, d3) \<Rightarrow>
        (case pop d3 of None \<Rightarrow> Inl UndefinedCard | Some (c2, d4) \<Rightarrow>
          (let initBet = min (bet s) (min (playerChips s) (cpuChips s))
           in Inr (s\<lparr> player := [p1, p2], cpu := [c1, c2], deck := d4, community := [],
                      message := [], stage := ''playing'', pot := initBet * 2,
                      playerChips := playerChips s - initBet,
                      cpuChips := cpuChips s - initBet \<rparr>)))))))"

definition evaluateWinner :: "state \<Rightarrow> state \<Rightarrow> state" where
  "evaluateWinner s q =
     (let playerEval = evaluateHandRank (player s @ community s);
          cpuEval = evaluateHandRank (cpu s @ community s)
      in (if js_less (strength cpuEval) (strength playerEval)
          then q\<lparr> message := ''You Win! ('' @ rank_name playerEval @ '')'',
                  playerChips := playerChips q + pot s \<rparr>
          else if js_less (strength playerEval) (strength cpuEval)
          then q\<lparr> message := ''CPU Wins. ('' @ rank_name cpuEval @ '')'',
                  cpuChips := cpuChips q + pot s \<rparr>
          else q\<lparr> message := ''Draw. ('' @ rank_name playerEval @ '')'',
                  playerChips := playerChips q + pot s / 2,
                  cpuChips := cpuChips q + pot s / 2 \<rparr>)
         \<lparr> stage := ''showdown'' \<rparr>)"

text \<open>
  \<^verbatim>\<open>nextStage\<close> reads \<^verbatim>\<open>community.length\<close> and the deck from the snapshot. The updater
  \<^verbatim>\<open>(prev) => [...prev, d.pop()!]\<close> pops from the array that \<^verbatim>\<open>setDeck(d)\<close> stores; it is taken
  to run once, as in a production build.
\<close>

definition nextStage :: "state \<Rightarrow> state \<Rightarrow> error + state" where
  "nextStage s q =
     (if length (community s) < 3 then
        (case pop (deck s) of None \<Rightarrow> Inl UndefinedCard | Some (a, d1) \<Rightarrow>
        (case pop d1 of None \<Rightarrow> Inl UndefinedCard | Some (b, d2) \<Rightarrow>
        (case pop d2 of None \<Rightarrow> Inl UndefinedCard | Some (c, d3) \<Rightarrow>
           Inr (q\<lparr> community := [a, b, c], deck := d3 \<rparr>))))
      else if length (community s) < 5 then
        (case pop (deck s) of None \<Rightarrow> Inl UndefinedCard | Some (a, d1) \<Rightarrow>
           Inr (q\<lparr> community := community q @ [a], deck := d1 \<rparr>))
      else Inr (evaluateWinner s q))"

definition reset :: "state \<Rightarrow> (nat \<Rightarrow> rat) \<Rightarrow> state" where
  "reset s rnd =
     s\<lparr> deck := freshDeck rnd, player := [], cpu := [], community := [], message := [],
        stage := ''ready'', pot := 0 \<rparr>"

text \<open>
  \<^verbatim>\<open>cpuDecision(playerRaised, raiseAmount)\<close>. The argument of its call of the evaluator is
  \<open>cpuEvalInput\<close>; \<open>rnd 0\<close> is \<^verbatim>\<open>bluffChance\<close> and \<open>rnd 1\<close> the second draw.
\<close>

definition cpuEvalInput :: "state \<Rightarrow> card list" where
  "cpuEvalInput s = cpu s @ community s"

definition cpuDecision :: "state \<Rightarrow> state \<Rightarrow> bool \<Rightarrow> rat \<Rightarrow> (nat \<Rightarrow> rat) \<Rightarrow> error + state" where
  "cpuDecision s q playerRaised raiseAmount rnd =
     (let cpuEval = evaluateHandRank (cpuEvalInput s);
          strength = strength cpuEval;
          bluffChance = rnd 0
      in if playerRaised then
           (if js_less (Num 5) strength \<or> bluffChance < 1 / 4 then
              (if raiseAmount \<le> cpuChips s then
                 nextStage s (q\<lparr> cpuChips := cpuChips q - raiseAmount,
                                 pot := pot q + raiseAmount,
                                 message := ''CPU calls your raise.'' \<rparr>)
               else
                 Inr (q\<lparr> message := ''CPU can't afford your raise and folds. You win!'',
                          playerChips := playerChips q + pot s + raiseAmount,
                          stage := ''folded'' \<rparr>))
            else
              Inr (q\<lparr> message := ''CPU folds. You win!'',
                       playerChips := playerChips q + pot s + raiseAmount,
                       stage := ''folded'' \<rparr>))
         else
           nextStage s
             (if bluffChance < 1 / 10 then
                q\<lparr> cpuChips := cpuChips q - bet s, pot := pot q + bet s,
                   message := ''CPU bluffs and raises!'' \<rparr>
              else if js_less (Num 5) strength \<and> rnd 1 < 1 / 2 then
                q\<lparr> cpuChips := cpuChips q - bet s, pot := pot q + bet s,
                   message := ''CPU raises confidently.'' \<rparr>
              else q\<lparr> message := ''CPU checks.'' \<rparr>))"

definition handleCheck :: "state \<Rightarrow> (nat \<Rightarrow> rat) \<Rightarrow> error + state" where
  "handleCheck s rnd =
     (if stage s = ''playing''
      then cpuDecision s (s\<lparr> message := ''You check.'' \<rparr>) False (bet s) rnd
      else Inr s)"

text \<open>
  In \<^verbatim>\<open>handleRaise\<close> the message \<^verbatim>\<open>You raise N.\<close> is replaced by the message of
  \<^verbatim>\<open>cpuDecision\<close> in each of its branches before anything is rendered, so it is left out.
\<close>

definition handleRaise :: "state \<Rightarrow> (nat \<Rightarrow> rat) \<Rightarrow> error + state" where
  "handleRaise s rnd =
     (if stage s = ''playing'' \<and> bet s \<le> playerChips s
      then (let raiseAmount = bet s
            in cpuDecision s
                 (s\<lparr> playerChips := playerChips s - raiseAmount, pot := pot s + raiseAmount \<rparr>)
                 True raiseAmount rnd)
      else Inr s)"

definition handleFold :: "state \<Rightarrow> state" where
  "handleFold s =
     s\<lparr> message := ''You Fold. CPU Wins.'', cpuChips := cpuChips s + pot s,
        stage := ''folded'' \<rparr>"

text \<open>The bet input: \<^verbatim>\<open>onChange={(e) => setBet(Number(e.target.value))}\<close>.\<close>

definition setBet :: "rat \<Rightarrow> state \<Rightarrow> state" where
  "setBet v s = s\<lparr> bet := v \<rparr>"

text \<open>
  The states a session can be in. The component renders the Deal button in stage
  \<^verbatim>\<open>ready\<close>, the Check, Raise and Fold buttons and the bet input in stage \<^verbatim>\<open>playing\<close>, and the
  Reset button in the stages \<^verbatim>\<open>showdown\<close> and \<^verbatim>\<open>folded\<close>.
\<close>

inductive reachable :: "state \<Rightarrow> bool" where
  r_init: "valid_rnd rnd \<Longrightarrow> reachable (initialState rnd)"
| r_deal: "reachable s \<Longrightarrow> stage s = ''ready'' \<Longrightarrow> deal s = Inr s' \<Longrightarrow> reachable s'"
| r_check: "reachable s \<Longrightarrow> stage s = ''playing'' \<Longrightarrow> valid_rnd rnd \<Longrightarrow>
            handleCheck s rnd = Inr s' \<Longrightarrow> reachable s'"
| r_raise: "reachable s \<Longrightarrow> stage s = ''playing'' \<Longrightarrow> valid_rnd rnd \<Longrightarrow>
            handleRaise s rnd = Inr s' \<Longrightarrow> reachable s'"
| r_fold: "reachable s \<Longrightarrow> stage s = ''playing'' \<Longrightarrow> reachable (handleFold s)"
| r_bet: "reachable s \<Longrightarrow> stage s = ''playing'' \<Longrightarrow> reachable (setBet v s)"
| r_reset: "reachable s \<Longrightarrow> stage s = ''showdown'' \<or> stage s = ''folded'' \<Longrightarrow>
            valid_rnd rnd \<Longrightarrow> reachable (reset s rnd)"

text \<open>
  The actions as the component offers them. A handler is reached only through its
  control, and the controls are rendered by stage: the Deal button under
  \<^verbatim>\<open>stage === "ready"\<close>; the Check and Raise buttons, the bet input and the Fold button
  (\<^verbatim>\<open>onClick={handleFold}\<close>, its only use) under \<^verbatim>\<open>stage === "playing"\<close>; the Reset button
  under \<^verbatim>\<open>stage === "showdown" || stage === "folded"\<close>. An action whose control is not
  rendered has nothing to act on and leaves the state as it is.
\<close>

datatype action = Deal | Check | Raise | Fold | Reset | SetBet rat

fun rendered :: "state \<Rightarrow> action \<Rightarrow> bool" where
  "rendered s Deal = (stage s = ''ready'')"
| "rendered s Check = (stage s = ''playing'')"
| "rendered s Raise = (stage s = ''playing'')"
| "rendered s Fold = (stage s = ''playing'')"
| "rendered s (SetBet v) = (stage s = ''playing'')"
| "rendered s Reset = (stage s = ''showdown'' \<or> stage s = ''folded'')"

fun handler :: "state \<Rightarrow> action \<Rightarrow> (nat \<Rightarrow> rat) \<Rightarrow> error + state" where
  "handler s Deal rnd = deal s"
| "handler s Check rnd = handleCheck s rnd"
| "handler s Raise rnd = handleRaise s rnd"
| "handler s Fold rnd = Inr (handleFold s)"
| "handler s (SetBet v) rnd = Inr (setBet v s)"
| "handler s Reset rnd = Inr (reset s rnd)"

definition perform :: "state \<Rightarrow> action \<Rightarrow> (nat \<Rightarrow> rat) \<Rightarrow> error + state" where
  "perform s a rnd = (if rendered s a then handler s a rnd else Inr s)"

text \<open>
  What holds of the cards in every state of a session: the deck and the dealt cards
  together are the 52 cards, a \<^verbatim>\<open>ready\<close> state has no cards dealt and an empty pot, and in
  the other stages both players hold two cards and the community has 0, 3, 4 or 5.
\<close>

definition wellFormed :: "state \<Rightarrow> bool" where
  "wellFormed s =
     (mset (deck s @ player s @ cpu s @ community s) = mset orderedDeck
      \<and> (if stage s = ''ready''
         then player s = [] \<and> cpu s = [] \<and> community s = [] \<and> pot s = 0
         else (stage s = ''playing'' \<or> stage s = ''showdown'' \<or> stage s = ''folded'')
              \<and> length (player s) = 2 \<and> length (cpu s) = 2
              \<and> (length (community s) = 0 \<or> length (community s) = 3
                  \<or> length (community s) = 4 \<or> length (community s) = 5)))"

section \<open>Concrete inputs\<close>

text \<open>
  Two sources of draws: with every draw \<open>99/100\<close> the shuffle swaps each position with
  itself and \<^verbatim>\<open>cpuDecision\<close> neither bluffs nor raises; with every draw \<open>0\<close> the opponent
  bluffs after a check.
\<close>

definition highRnd :: "nat \<Rightarrow> rat" where
  "highRnd k = 99 / 100"

definition lowRnd :: "nat \<Rightarrow> rat" where
  "lowRnd k = 0"

text \<open>
  The state after a round played from \<open>initialState highRnd\<close> by Deal and four Checks,
  each answered by the opponent's check: the opponent has won the showdown.
\<close>

definition showdownState :: state where
  "showdownState =
     \<lparr> deck = take 43 orderedDeck,
       player = [Card RA Club, Card RK Club],
       cpu = [Card RQ Club, Card RJ Club],
       community = [Card R10 Club, Card R9 Club, Card R8 Club, Card R7 Club, Card R6 Club],
       message = ''CPU Wins. (Straight Flush)'', stage = ''showdown'',
       playerChips = 950, cpuChips = 1050, pot = 100, bet = 50 \<rparr>"

text \<open>The state after Deal in \<open>initialState highRnd\<close>.\<close>

definition dealtState :: state where
  "dealtState =
     \<lparr> deck = take 48 orderedDeck,
       player = [Card RA Club, Card RK Club],
       cpu = [Card RQ Club, Card RJ Club],
       community = [],
       message = [], stage = ''playing'',
       playerChips = 950, cpuChips = 950, pot = 100, bet = 50 \<rparr>"

text \<open>
  The state after Deal, the bet unit set to 900 (within the input's bounds, 10 to
  \<^verbatim>\<open>playerChips\<close> in steps of 10) and a Check that the opponent answered with a bluff.
\<close>

definition shortStackState :: state where
  "shortStackState =
     \<lparr> deck = take 45 orderedDeck,
       player = [Card RA Club, Card RK Club],
       cpu = [Card RQ Club, Card RJ Club],
       community = [Card R10 Club, Card R9 Club, Card R8 Club],
       message = ''CPU bluffs and raises!'', stage = ''playing'',
       playerChips = 950, cpuChips = 50, pot = 1000, bet = 900 \<rparr>"

text \<open>
  The state after Deal and a Raise that the opponent folded to, and the state after Deal
  and three Checks, each answered by the opponent's check.
\<close>

definition foldedState :: state where
  "foldedState =
     dealtState\<lparr> playerChips := 1050, pot := 150, stage := ''folded'',
                 message := ''CPU folds. You win!'' \<rparr>"

definition riverState :: state where
  "riverState =
     dealtState\<lparr> deck := take 43 orderedDeck,
                 community := [Card R10 Club, Card R9 Club, Card R8 Club, Card R7 Club,
                               Card R6 Club],
                 message := ''CPU checks.'' \<rparr>"

section \<open>Properties of the hand evaluator\<close>

lemmas eval_defs = evaluateHandRank_def rankNameOf_def straight_def flush_def uniqueRanks_def
  valuesOf_def ranksOf_def rankValue_def RANKS_def rankOrder_def countBy_def object_values_def
  new_Set_def slice_last5_def Let_def

text \<open>
  Claim C1. The strength is \<open>category_index + kicker / 100\<close> with the category's position
  in the rank ordering, so that a higher category always has the greater strength; in
  particular four of a kind beats a high card. The code names four of a kind
  \<^verbatim>\<open>"Four Cards"\<close> while \<^verbatim>\<open>rankOrder\<close> lists \<^verbatim>\<open>"Four Card"\<close>: \<^verbatim>\<open>indexOf\<close> answers \<open>-1\<close>, the
  strength of 2\<spadesuit> 2\<heartsuit> 2\<diamondsuit> 2\<clubsuit> 3\<spadesuit> is \<open>-1 + 3/100\<close>, and the hand loses against the
  high-card hand 2\<spadesuit> 4\<heartsuit> 6\<diamondsuit> 8\<clubsuit> 10\<spadesuit> of strength \<open>0 + 10/100\<close>.
\<close>

theorem four_of_a_kind_below_high_card:
  "evaluateHandRank [Card R2 Spade, Card R2 Heart, Card R2 Diamond, Card R2 Club, Card R3 Spade]
     = \<lparr> rank_name = ''Four Cards'', strength = Num (- 97 / 100) \<rparr>
   \<and> indexOf rankOrder ''Four Cards'' = - 1
   \<and> indexOf rankOrder ''Four Card'' = 7
   \<and> evaluateHandRank [Card R2 Spade, Card R4 Heart, Card R6 Diamond, Card R8 Club, Card R10 Spade]
     = \<lparr> rank_name = ''High Card'', strength = Num (10 / 100) \<rparr>
   \<and> js_less
        (strength (evaluateHandRank
           [Card R2 Spade, Card R2 Heart, Card R2 Diamond, Card R2 Club, Card R3 Spade]))
        (strength (evaluateHandRank
           [Card R2 Spade, Card R4 Heart, Card R6 Diamond, Card R8 Club, Card R10 Spade]))"
  by (simp add: Card_def eval_defs)

text \<open>
  For the record: on a non-empty hand the strength is the index of the name in
  \<^verbatim>\<open>rankOrder\<close> plus a kicker between \<open>2/100\<close> and \<open>14/100\<close>, so the strength does follow
  the index; what is wrong for four of a kind is the index itself.
\<close>

lemma rankValue_range: "2 \<le> rankValue c \<and> rankValue c \<le> 14"
  by (cases "rank c") (simp_all add: rankValue_def RANKS_def)

lemma fold_max_mem: "fold max xs (x :: int) \<in> set (x # xs)"
proof (induction xs arbitrary: x)
  case Nil
  then show ?case by simp
next
  case (Cons y ys)
  have "fold max (y # ys) x = fold max ys (max y x)"
    by simp
  moreover have "fold max ys (max y x) \<in> set (max y x # ys)"
    by (rule Cons.IH)
  moreover have "max y x = x \<or> max y x = y"
    by (cases "y \<le> x") (simp_all add: max_absorb1 max_absorb2)
  ultimately show ?case
    by auto
qed

lemma kicker_range:
  assumes "cards \<noteq> []"
  shows "\<exists>k. Math_max (ranksOf cards) = Num (of_int k) \<and> 2 \<le> k \<and> k \<le> 14"
proof -
  have "length (ranksOf cards) = length cards"
    by (simp add: ranksOf_def)
  with assms obtain r rs where rs: "ranksOf cards = r # rs"
    by (cases "ranksOf cards") auto
  have "fold max rs r \<in> set (ranksOf cards)"
    unfolding rs by (rule fold_max_mem)
  then have "fold max rs r \<in> rankValue ` set cards"
    by (simp add: ranksOf_def)
  then have "2 \<le> fold max rs r \<and> fold max rs r \<le> 14"
    using rankValue_range by auto
  with rs show ?thesis
    by simp
qed

lemma strength_formula:
  assumes "cards \<noteq> []"
  shows "\<exists>k. 2 \<le> k \<and> k \<le> 14 \<and> strength (evaluateHandRank cards)
     = Num (of_int (indexOf rankOrder (rank_name (evaluateHandRank cards))) + of_int k / 100)"
proof -
  from kicker_range [OF assms] obtain k
    where "Math_max (ranksOf cards) = Num (of_int k)" and "2 \<le> k" and "k \<le> 14"
    by blast
  then show ?thesis
    by (auto simp: evaluateHandRank_def Let_def)
qed

lemma index_dominates:
  assumes "cs \<noteq> []" and "ds \<noteq> []"
    and "indexOf rankOrder (rank_name (evaluateHandRank cs))
         < indexOf rankOrder (rank_name (evaluateHandRank ds))"
  shows "js_less (strength (evaluateHandRank cs)) (strength (evaluateHandRank ds))"
proof -
  let ?a = "indexOf rankOrder (rank_name (evaluateHandRank cs))"
  let ?b = "indexOf rankOrder (rank_name (evaluateHandRank ds))"
  from strength_formula [OF assms(1)] obtain k where k: "k \<le> 14"
    and sc: "strength (evaluateHandRank cs) = Num (of_int ?a + of_int k / 100)"
    by blast
  from strength_formula [OF assms(2)] obtain l where l: "2 \<le> l"
    and sd: "strength (evaluateHandRank ds) = Num (of_int ?b + of_int l / 100)"
    by blast
  from assms(3) have "?a + 1 \<le> ?b"
    by simp
  then have ab: "(of_int ?a :: rat) + 1 \<le> of_int ?b"
    by (metis of_int_1 of_int_add of_int_le_iff)
  from k have k': "(of_int k :: rat) \<le> 14"
    by (metis of_int_le_iff of_int_numeral)
  from l have l': "(2 :: rat) \<le> of_int l"
    by (metis of_int_le_iff of_int_numeral)
  from ab k' l' have "(of_int ?a :: rat) + of_int k / 100 < of_int ?b + of_int l / 100"
    by simp
  with sc sd show ?thesis
    by simp
qed

subsection \<open>Straight detection\<close>

lemma every_succ_5:
  assumes "length xs = 5" and "every_succ xs"
  shows "set xs = {hd xs, hd xs + 1, hd xs + 2, hd xs + 3, hd xs + 4}"
proof -
  from assms(1) obtain a b c d e where "xs = [a, b, c, d, e]"
    by (auto simp: length_Suc_conv numeral_eq_Suc)
  with assms(2) show ?thesis by auto
qed

lemma set_uniqueRanks: "set (uniqueRanks cards) = set (map rankValue cards)"
  by (simp add: uniqueRanks_def new_Set_def ranksOf_def)

text \<open>A detected straight is a run of five consecutive rank values among the cards.\<close>

lemma straight_run:
  assumes "straight cards"
  shows "\<exists>k. {k, k + 1, k + 2, k + 3, k + 4} \<subseteq> set (map rankValue cards)"
proof -
  let ?u = "uniqueRanks cards"
  let ?t = "slice_last5 ?u"
  from assms have len: "5 \<le> length ?u" and ev: "every_succ ?t"
    by (simp_all add: straight_def)
  from len have "length ?t = 5"
    by (simp add: slice_last5_def)
  from every_succ_5 [OF this ev]
  have "{hd ?t, hd ?t + 1, hd ?t + 2, hd ?t + 3, hd ?t + 4} \<subseteq> set ?t"
    by simp
  moreover have "set ?t \<subseteq> set ?u"
    by (simp add: slice_last5_def set_drop_subset)
  ultimately show ?thesis
    unfolding set_uniqueRanks by blast
qed

lemma not_straight_names:
  "\<not> straight cards \<Longrightarrow>
     rank_name (evaluateHandRank cards) \<noteq> ''Straight''
     \<and> rank_name (evaluateHandRank cards) \<noteq> ''Straight Flush''
     \<and> rank_name (evaluateHandRank cards) \<noteq> ''Royale Straight Flush''"
  by (simp add: evaluateHandRank_def rankNameOf_def Let_def)

text \<open>
  Claim C8. When the rank values of the input hold the wheel A-2-3-4-5 (values
  \<open>14, 2, 3, 4, 5\<close>) and no five numerically consecutive values, the straight detection
  answers no, and the hand is named neither Straight nor Straight Flush (nor Royale
  Straight Flush).
\<close>

theorem wheel_not_straight:
  assumes "{14, 2, 3, 4, 5} \<subseteq> set (map rankValue cards)"
    and "\<forall>k. \<not> {k, k + 1, k + 2, k + 3, k + 4} \<subseteq> set (map rankValue cards)"
  shows "\<not> straight cards
     \<and> rank_name (evaluateHandRank cards) \<noteq> ''Straight''
     \<and> rank_name (evaluateHandRank cards) \<noteq> ''Straight Flush''
     \<and> rank_name (evaluateHandRank cards) \<noteq> ''Royale Straight Flush''"
proof -
  from assms(2) straight_run have "\<not> straight cards"
    by blast
  then show ?thesis
    using not_straight_names by blast
qed

lemma wheel_hand_values:
  "map rankValue [Card RA Spade, Card R2 Heart, Card R3 Heart, Card R4 Heart, Card R5 Heart,
                  Card R9 Club, Card RK Club] = [14, 2, 3, 4, 5, 9, 13]"
  by (simp add: Card_def rankValue_def RANKS_def)

theorem wheel_not_straight_witness:
  "{14, 2, 3, 4, 5} \<subseteq> set (map rankValue
       [Card RA Spade, Card R2 Heart, Card R3 Heart, Card R4 Heart, Card R5 Heart,
        Card R9 Club, Card RK Club])
   \<and> (\<forall>k. \<not> {k, k + 1, k + 2, k + 3, k + 4} \<subseteq> set (map rankValue
       [Card RA Spade, Card R2 Heart, Card R3 Heart, Card R4 Heart, Card R5 Heart,
        Card R9 Club, Card RK Club]))
   \<and> \<not> straight
       [Card RA Spade, Card R2 Heart, Card R3 Heart, Card R4 Heart, Card R5 Heart,
        Card R9 Club, Card RK Club]
   \<and> rank_name (evaluateHandRank
       [Card RA Spade, Card R2 Heart, Card R3 Heart, Card R4 Heart, Card R5 Heart,
        Card R9 Club, Card RK Club]) = ''High Card''"
proof -
  let ?h = "[Card RA Spade, Card R2 Heart, Card R3 Heart, Card R4 Heart, Card R5 Heart,
             Card R9 Club, Card RK Club]"
  have a: "{14, 2, 3, 4, 5} \<subseteq> set (map rankValue ?h)"
    unfolding wheel_hand_values by simp
  have b: "\<forall>k. \<not> {k, k + 1, k + 2, k + 3, k + 4} \<subseteq> set (map rankValue ?h)"
    unfolding wheel_hand_values
  proof (intro allI notI)
    fix k :: int
    assume run: "{k, k + 1, k + 2, k + 3, k + 4} \<subseteq> set [14, 2, 3, 4, 5, 9, 13]"
    then have k: "k = 14 \<or> k = 2 \<or> k = 3 \<or> k = 4 \<or> k = 5 \<or> k = 9 \<or> k = 13"
      by simp
    from run have k1: "k + 1 \<in> set [14, 2, 3, 4, 5, 9, 13]"
      and k4: "k + 4 \<in> set [14, 2, 3, 4, 5, 9, 13]"
      by simp_all
    from k show False
      using k1 k4 by (elim disjE) simp_all
  qed
  have c: "rank_name (evaluateHandRank ?h) = ''High Card''"
    by (simp add: Card_def eval_defs)
  from wheel_not_straight [OF a b] a b c show ?thesis
    by blast
qed

text \<open>
  Claim C10. The flush test counts a suit over all the cards and the straight test looks
  at all the distinct ranks, independently. The seven cards 10\<heartsuit> J\<heartsuit> Q\<spadesuit> K\<spadesuit> A\<heartsuit> 2\<heartsuit> 3\<heartsuit> are named
  Royale Straight Flush, although none of their five-card subsets passes both the
  straight test and the flush test: the only flush among them is 10\<heartsuit> J\<heartsuit> A\<heartsuit> 2\<heartsuit> 3\<heartsuit>, which
  is no straight, with or without the wheel.
\<close>

theorem straight_flush_without_straight_flush_subset:
  "\<exists>cards. length cards = 7 \<and> distinct cards
     \<and> rank_name (evaluateHandRank cards) = ''Royale Straight Flush''
     \<and> filter (\<lambda>sub. length sub = 5 \<and> straight sub \<and> flush sub) (subseqs cards) = []
     \<and> filter (\<lambda>sub. length sub = 5 \<and> flush sub) (subseqs cards)
         = [[Card R10 Heart, Card RJ Heart, Card RA Heart, Card R2 Heart, Card R3 Heart]]"
proof -
  let ?h = "[Card R10 Heart, Card RJ Heart, Card RQ Spade, Card RK Spade, Card RA Heart,
             Card R2 Heart, Card R3 Heart]"
  have 1: "length ?h = 7 \<and> distinct ?h"
    by (simp add: Card_def)
  have 2: "rank_name (evaluateHandRank ?h) = ''Royale Straight Flush''"
    by (simp add: Card_def eval_defs)
  have 3: "filter (\<lambda>sub. length sub = 5 \<and> straight sub \<and> flush sub) (subseqs ?h) = []"
    by (simp add: Card_def eval_defs)
  have 4: "filter (\<lambda>sub. length sub = 5 \<and> flush sub) (subseqs ?h)
      = [[Card R10 Heart, Card RJ Heart, Card RA Heart, Card R2 Heart, Card R3 Heart]]"
    by (simp add: Card_def eval_defs)
  from 1 2 3 4 show ?thesis
    by blast
qed

section \<open>Properties of the round state machine\<close>

lemmas step_defs = deal_def nextStage_def evaluateWinner_def cpuDecision_def cpuEvalInput_def
  handleCheck_def handleRaise_def handleFold_def setBet_def reset_def

subsection \<open>Drawing cards\<close>


lemma pop_Nil [simp]: "pop [] = None"
  by (simp add: pop_def)

lemma pop_eq_Some: "pop d = Some (x, d') \<longleftrightarrow> d = d' @ [x]"
  by (cases d rule: rev_cases) (auto simp: pop_def)

lemma orderedDeck_eq:
  "orderedDeck =
    [Card R2 Spade, Card R3 Spade, Card R4 Spade, Card R5 Spade, Card R6 Spade,
     Card R7 Spade, Card R8 Spade, Card R9 Spade, Card R10 Spade, Card RJ Spade,
     Card RQ Spade, Card RK Spade, Card RA Spade,
     Card R2 Heart, Card R3 Heart, Card R4 Heart, Card R5 Heart, Card R6 Heart,
     Card R7 Heart, Card R8 Heart, Card R9 Heart, Card R10 Heart, Card RJ Heart,
     Card RQ Heart, Card RK Heart, Card RA Heart,
     Card R2 Diamond, Card R3 Diamond, Card R4 Diamond, Card R5 Diamond, Card R6 Diamond,
     Card R7 Diamond, Card R8 Diamond, Card R9 Diamond, Card R10 Diamond, Card RJ Diamond,
     Card RQ Diamond, Card RK Diamond, Card RA Diamond,
     Card R2 Club, Card R3 Club, Card R4 Club, Card R5 Club, Card R6 Club,
     Card R7 Club, Card R8 Club, Card R9 Club, Card R10 Club, Card RJ Club,
     Card RQ Club, Card RK Club, Card RA Club]"
  by (simp add: orderedDeck_def SUITS_def RANKS_def Card_def)

lemma length_orderedDeck: "length orderedDeck = 52"
  by (simp add: orderedDeck_def SUITS_def RANKS_def)

text \<open>With every draw \<open>99/100\<close> the index \<open>j\<close> is \<open>i\<close> itself, and the shuffle changes nothing.\<close>

lemma highRnd_floor:
  assumes "i \<le> 99"
  shows "nat \<lfloor>highRnd i * of_nat (i + 1)\<rfloor> = i"
proof -
  have "\<lfloor>(99 / 100 :: rat) * of_nat (i + 1)\<rfloor> = int i"
  proof (rule floor_unique)
    have "100 * (of_nat i :: rat) \<le> 99 * of_nat (i + 1)"
      using assms by (simp add: algebra_simps)
    then show "of_int (int i) \<le> (99 / 100 :: rat) * of_nat (i + 1)"
      by simp
    show "(99 / 100 :: rat) * of_nat (i + 1) < of_int (int i) + 1"
      by simp
  qed
  then show ?thesis
    by (simp add: highRnd_def)
qed

lemma shuffle_highRnd: "i \<le> 99 \<Longrightarrow> shuffle highRnd i d = d"
proof (induction i)
  case 0
  then show ?case
    by (simp add: shuffle.simps)
next
  case (Suc i)
  then have "nat \<lfloor>highRnd (Suc i) * of_nat (Suc i + 1)\<rfloor> = Suc i"
    using highRnd_floor [of "Suc i"] by simp
  with Suc show ?case
    by (subst shuffle.simps) (simp add: Let_def)
qed

lemma freshDeck_highRnd: "freshDeck highRnd = orderedDeck"
  by (simp add: freshDeck_def shuffle_highRnd length_orderedDeck)

lemma valid_highRnd: "valid_rnd highRnd"
  by (simp add: valid_rnd_def highRnd_def)

lemma valid_lowRnd: "valid_rnd lowRnd"
  by (simp add: valid_rnd_def lowRnd_def)

subsection \<open>Steps that do not end the round\<close>

lemma nextStage_early:
  assumes "nextStage s q = Inr s'" and "length (community s) < 5"
  shows "playerChips s' = playerChips q \<and> cpuChips s' = cpuChips q \<and> pot s' = pot q
     \<and> bet s' = bet q \<and> stage s' = stage q \<and> message s' = message q
     \<and> player s' = player q \<and> cpu s' = cpu q"
  using assms
  by (auto simp: nextStage_def split: if_splits option.splits prod.splits)

lemma handleCheck_noop: "stage s \<noteq> ''playing'' \<Longrightarrow> handleCheck s rnd = Inr s"
  by (simp add: handleCheck_def)

lemma handleRaise_noop: "stage s \<noteq> ''playing'' \<Longrightarrow> handleRaise s rnd = Inr s"
  by (simp add: handleRaise_def)

subsection \<open>The shuffle permutes the deck\<close>

lemma shuffle_index:
  assumes "valid_rnd rnd"
  shows "nat \<lfloor>rnd i * of_nat (i + 1)\<rfloor> \<le> i"
proof -
  from assms have r: "0 \<le> rnd i" "rnd i < 1"
    by (simp_all add: valid_rnd_def)
  have "rnd i * of_nat (i + 1) < 1 * of_nat (i + 1)"
    by (rule mult_strict_right_mono) (use r in simp_all)
  moreover have "(1 :: rat) * of_nat (i + 1) = of_int (int i + 1)"
    by simp
  ultimately have "rnd i * of_nat (i + 1) < of_int (int i + 1)"
    by (simp only:)
  then have "\<lfloor>rnd i * of_nat (i + 1)\<rfloor> < int i + 1"
    by (simp only: floor_less_iff)
  then show ?thesis
    by simp
qed

lemma mset_shuffle:
  assumes "valid_rnd rnd"
  shows "i < length d \<Longrightarrow> mset (shuffle rnd i d) = mset d"
proof (induction i arbitrary: d)
  case 0
  then show ?case
    by (simp add: shuffle.simps)
next
  case (Suc i)
  let ?j = "nat \<lfloor>rnd (Suc i) * of_nat (Suc i + 1)\<rfloor>"
  let ?d = "d[Suc i := d ! ?j, ?j := d ! Suc i]"
  from shuffle_index [OF assms, of "Suc i"] Suc.prems have j: "?j < length d"
    by simp
  have swap: "mset ?d = mset d"
    using mset_swap [OF j Suc.prems] .
  have "shuffle rnd (Suc i) d = shuffle rnd i ?d"
    by (subst shuffle.simps) (simp add: Let_def)
  also have "mset \<dots> = mset ?d"
    using Suc.prems by (intro Suc.IH) simp
  finally show ?case
    using swap by simp
qed

lemma mset_freshDeck: "valid_rnd rnd \<Longrightarrow> mset (freshDeck rnd) = mset orderedDeck"
  by (simp add: freshDeck_def mset_shuffle length_orderedDeck)

lemma distinct_orderedDeck: "distinct orderedDeck"
  by (simp add: orderedDeck_def SUITS_def RANKS_def)

subsection \<open>Every state of a session is well formed\<close>

lemma wellFormed_init: "valid_rnd rnd \<Longrightarrow> wellFormed (initialState rnd)"
  by (simp add: wellFormed_def initialState_def mset_freshDeck)

lemma wellFormed_reset: "valid_rnd rnd \<Longrightarrow> wellFormed (reset s rnd)"
  by (simp add: wellFormed_def reset_def mset_freshDeck)

lemma wellFormed_setBet: "wellFormed s \<Longrightarrow> wellFormed (setBet v s)"
  by (auto simp: wellFormed_def setBet_def split: if_splits)

lemma wellFormed_fold: "wellFormed s \<Longrightarrow> stage s = ''playing'' \<Longrightarrow> wellFormed (handleFold s)"
  by (auto simp: wellFormed_def handleFold_def split: if_splits)

lemma wellFormed_deal:
  assumes "wellFormed s" and "stage s = ''ready''" and "deal s = Inr s'"
  shows "wellFormed s'"
  using assms
  by (auto simp: wellFormed_def deal_def pop_eq_Some Let_def add_mset_commute
           split: if_splits option.splits prod.splits)

lemma wellFormed_nextStage:
  assumes "wellFormed s" and "stage s = ''playing''" and "nextStage s q = Inr s'"
    and "deck q = deck s" and "player q = player s" and "cpu q = cpu s"
    and "community q = community s" and "stage q = stage s"
  shows "wellFormed s'"
  using assms
  by (auto simp: wellFormed_def nextStage_def evaluateWinner_def pop_eq_Some Let_def
             add_mset_commute
           split: if_splits option.splits prod.splits)

lemma wellFormed_check:
  assumes "wellFormed s" and "stage s = ''playing''" and "handleCheck s rnd = Inr s'"
  shows "wellFormed s'"
proof -
  from assms(2,3) obtain q where "nextStage s q = Inr s'" and "deck q = deck s"
    and "player q = player s" and "cpu q = cpu s" and "community q = community s"
    and "stage q = stage s"
    by (auto simp: handleCheck_def cpuDecision_def Let_def split: if_splits)
  with assms(1,2) show ?thesis
    by (rule wellFormed_nextStage)
qed

lemma wellFormed_raise:
  assumes "wellFormed s" and "stage s = ''playing''" and "handleRaise s rnd = Inr s'"
  shows "wellFormed s'"
proof (cases "stage s' = ''folded''")
  case True
  with assms show ?thesis
    by (auto simp: handleRaise_def cpuDecision_def Let_def wellFormed_def nextStage_def
               evaluateWinner_def
             split: if_splits option.splits prod.splits)
next
  case False
  with assms(2,3) have "s' = s \<or> (\<exists>q. nextStage s q = Inr s' \<and> deck q = deck s
    \<and> player q = player s \<and> cpu q = cpu s \<and> community q = community s
    \<and> stage q = stage s)"
    by (auto simp: handleRaise_def cpuDecision_def Let_def split: if_splits)
  with assms(1,2) show ?thesis
    using wellFormed_nextStage by blast
qed

lemma reachable_wellFormed: "reachable s \<Longrightarrow> wellFormed s"
proof (induction rule: reachable.induct)
  case (r_init rnd)
  then show ?case by (rule wellFormed_init)
next
  case (r_deal s s')
  then show ?case using wellFormed_deal by blast
next
  case (r_check s rnd s')
  then show ?case using wellFormed_check by blast
next
  case (r_raise s rnd s')
  then show ?case using wellFormed_raise by blast
next
  case (r_fold s)
  then show ?case using wellFormed_fold by blast
next
  case (r_bet s v)
  then show ?case using wellFormed_setBet by blast
next
  case (r_reset s rnd)
  then show ?case using wellFormed_reset by blast
qed

subsection \<open>The concrete states are states of a session\<close>

lemma reachable_dealtState: "reachable dealtState"
proof -
  have "reachable (initialState highRnd)"
    using valid_highRnd by (rule r_init)
  moreover have "stage (initialState highRnd) = ''ready''"
    by (simp add: initialState_def)
  moreover have "deal (initialState highRnd) = Inr dealtState"
    by (simp add: dealtState_def initialState_def freshDeck_highRnd deal_def pop_def
          orderedDeck_eq)
  ultimately show ?thesis
    by (rule r_deal)
qed

lemma reachable_shortStackState: "reachable shortStackState"
proof -
  have "reachable (setBet 900 dealtState)"
    using reachable_dealtState by (rule r_bet) (simp add: dealtState_def)
  moreover have "stage (setBet 900 dealtState) = ''playing''"
    by (simp add: setBet_def dealtState_def)
  moreover note valid_lowRnd
  moreover have "handleCheck (setBet 900 dealtState) lowRnd = Inr shortStackState"
    by (simp add: shortStackState_def dealtState_def step_defs pop_def orderedDeck_eq
          lowRnd_def)
  ultimately show ?thesis
    by (rule r_check)
qed

lemma reachable_riverState: "reachable riverState"
proof -
  let ?flop = "dealtState\<lparr> deck := take 45 orderedDeck,
      community := [Card R10 Club, Card R9 Club, Card R8 Club], message := ''CPU checks.'' \<rparr>"
  let ?turn = "dealtState\<lparr> deck := take 44 orderedDeck,
      community := [Card R10 Club, Card R9 Club, Card R8 Club, Card R7 Club],
      message := ''CPU checks.'' \<rparr>"
  have 1: "handleCheck dealtState highRnd = Inr ?flop"
    by (simp add: dealtState_def step_defs pop_def orderedDeck_eq highRnd_def Card_def
          eval_defs)
  have 2: "handleCheck ?flop highRnd = Inr ?turn"
    by (simp add: dealtState_def step_defs pop_def orderedDeck_eq highRnd_def Card_def
          eval_defs)
  have 3: "handleCheck ?turn highRnd = Inr riverState"
    by (simp add: riverState_def dealtState_def step_defs pop_def orderedDeck_eq highRnd_def
          Card_def eval_defs)
  have "reachable ?flop"
    using reachable_dealtState _ valid_highRnd 1 by (rule r_check) (simp add: dealtState_def)
  then have "reachable ?turn"
    using _ valid_highRnd 2 by (rule r_check) (simp add: dealtState_def)
  then show ?thesis
    using _ valid_highRnd 3 by (rule r_check) (simp add: dealtState_def)
qed

lemma handleCheck_riverState: "handleCheck riverState highRnd = Inr showdownState"
  by (simp add: showdownState_def riverState_def dealtState_def step_defs pop_def
        orderedDeck_eq highRnd_def Card_def eval_defs)

lemma reachable_showdownState: "reachable showdownState"
  using reachable_riverState _ valid_highRnd handleCheck_riverState
  by (rule r_check) (simp add: riverState_def dealtState_def)

lemma handleRaise_dealtState: "handleRaise dealtState highRnd = Inr foldedState"
  by (simp add: foldedState_def dealtState_def step_defs highRnd_def Card_def eval_defs)

lemma reachable_foldedState: "reachable foldedState"
  using reachable_dealtState _ valid_highRnd handleRaise_dealtState
  by (rule r_raise) (simp add: dealtState_def)

section \<open>Actions outside their phase\<close>

text \<open>The actions of the component are the steps of a session, and conversely.\<close>

lemma reachable_perform:
  assumes "reachable s" and "valid_rnd rnd" and "perform s a rnd = Inr s'"
  shows "reachable s'"
proof (cases "rendered s a")
  case False
  with assms show ?thesis
    by (simp add: perform_def)
next
  case True
  with assms(3) have h: "handler s a rnd = Inr s'"
    by (simp add: perform_def)
  show ?thesis
  proof (cases a)
    case Deal
    with True h assms(1) show ?thesis
      using r_deal [of s s'] by simp
  next
    case Check
    with True h assms(1,2) show ?thesis
      using r_check [of s rnd s'] by simp
  next
    case Raise
    with True h assms(1,2) show ?thesis
      using r_raise [of s rnd s'] by simp
  next
    case Fold
    with True h assms(1) show ?thesis
      using r_fold [of s] by auto
  next
    case Reset
    with True h assms(1,2) show ?thesis
      using r_reset [of s rnd] by auto
  next
    case (SetBet v)
    with True h assms(1) show ?thesis
      using r_bet [of s v] by auto
  qed
qed



text \<open>
  In stage \<^verbatim>\<open>playing\<close> the Fold action is \<^verbatim>\<open>handleFold\<close>: the pot goes to the opponent and
  the stage becomes \<^verbatim>\<open>folded\<close>. The handler has no test of the stage of its own; the
  rendering is its guard.
\<close>

lemma perform_Fold_playing:
  "stage s = ''playing'' \<Longrightarrow>
     perform s Fold rnd
       = Inr (s\<lparr> message := ''You Fold. CPU Wins.'', cpuChips := cpuChips s + pot s,
                  stage := ''folded'' \<rparr>)"
  by (simp add: perform_def handleFold_def)

section \<open>The opponent's answer to a raise\<close>

text \<open>
  Claim C7. After a raise of \<open>A = bet s\<close> (possible in stage \<^verbatim>\<open>playing\<close> with
  \<open>A \<le> playerChips\<close>), the opponent calls exactly when (strength \<open>> 5\<close> or the draw
  \<open>rnd 0 < 1/4\<close>) and \<open>A \<le> cpuChips\<close>: then \<open>A\<close> moves from the opponent's stack into the
  pot, which holds both raises, and the round goes on with \<^verbatim>\<open>nextStage\<close>. In every other
  case the opponent folds: the stage is \<^verbatim>\<open>folded\<close> and the player's stack, already reduced
  by \<open>A\<close>, grows by the pot including that raise, \<open>pot + A\<close>.
\<close>

theorem raise_response:
  assumes "stage s = ''playing''" and "bet s \<le> playerChips s"
  shows "handleRaise s rnd =
     (if (js_less (Num 5) (strength (evaluateHandRank (cpu s @ community s))) \<or> rnd 0 < 1 / 4)
          \<and> bet s \<le> cpuChips s
      then nextStage s
             (s\<lparr> playerChips := playerChips s - bet s, cpuChips := cpuChips s - bet s,
                 pot := pot s + bet s + bet s, message := ''CPU calls your raise.'' \<rparr>)
      else Inr (s\<lparr> playerChips := (playerChips s - bet s) + (pot s + bet s),
                    pot := pot s + bet s, stage := ''folded'',
                    message :=
                      (if js_less (Num 5) (strength (evaluateHandRank (cpu s @ community s)))
                          \<or> rnd 0 < 1 / 4
                       then ''CPU can't afford your raise and folds. You win!''
                       else ''CPU folds. You win!'') \<rparr>))"
  using assms by (simp add: handleRaise_def cpuDecision_def cpuEvalInput_def Let_def)

theorem raise_response_witness:
  "stage shortStackState = ''playing'' \<and> bet shortStackState \<le> playerChips shortStackState
   \<and> lowRnd 0 < 1 / 4 \<and> cpuChips shortStackState = 50 \<and> bet shortStackState = 900
   \<and> handleRaise shortStackState lowRnd
       = Inr (shortStackState\<lparr> playerChips := 1950, pot := 1900, stage := ''folded'',
                message := ''CPU can't afford your raise and folds. You win!'' \<rparr>)
   \<and> stage dealtState = ''playing'' \<and> bet dealtState \<le> playerChips dealtState
   \<and> handleRaise dealtState lowRnd
       = Inr (dealtState\<lparr> playerChips := 900, cpuChips := 900, pot := 200,
                message := ''CPU calls your raise.'', deck := take 45 orderedDeck,
                community := [Card R10 Club, Card R9 Club, Card R8 Club] \<rparr>)
   \<and> handleRaise dealtState highRnd
       = Inr (dealtState\<lparr> playerChips := 1050, pot := 150, stage := ''folded'',
                message := ''CPU folds. You win!'' \<rparr>)"
proof -
  have a: "stage shortStackState = ''playing''" "bet shortStackState \<le> playerChips shortStackState"
    by (simp_all add: shortStackState_def)
  have b: "stage dealtState = ''playing''" "bet dealtState \<le> playerChips dealtState"
    by (simp_all add: dealtState_def)
  have 1: "handleRaise shortStackState lowRnd
       = Inr (shortStackState\<lparr> playerChips := 1950, pot := 1900, stage := ''folded'',
                message := ''CPU can't afford your raise and folds. You win!'' \<rparr>)"
    unfolding raise_response [OF a]
    by (simp add: shortStackState_def lowRnd_def)
  have 2: "handleRaise dealtState lowRnd
       = Inr (dealtState\<lparr> playerChips := 900, cpuChips := 900, pot := 200,
                message := ''CPU calls your raise.'', deck := take 45 orderedDeck,
                community := [Card R10 Club, Card R9 Club, Card R8 Club] \<rparr>)"
    unfolding raise_response [OF b]
    by (simp add: dealtState_def lowRnd_def nextStage_def pop_def orderedDeck_eq)
  have 3: "handleRaise dealtState highRnd
       = Inr (dealtState\<lparr> playerChips := 1050, pot := 150, stage := ''folded'',
                message := ''CPU folds. You win!'' \<rparr>)"
    unfolding raise_response [OF b]
    by (simp add: dealtState_def highRnd_def Card_def eval_defs)
  from a b 1 2 3 show ?thesis
    by (simp add: lowRnd_def shortStackState_def)
qed

section \<open>The opponent's raise after a check\<close>

lemma check_raise_deducts:
  assumes "stage s = ''playing''" and "rnd 0 < 1 / 10" and "length (community s) < 5"
    and "handleCheck s rnd = Inr s'"
  shows "cpuChips s' = cpuChips s - bet s \<and> pot s' = pot s + bet s"
proof -
  from assms(1,2,4)
  have "nextStage s (s\<lparr> message := ''You check.'', cpuChips := cpuChips s - bet s,
                         pot := pot s + bet s, message := ''CPU bluffs and raises!'' \<rparr>) = Inr s'"
    by (simp add: handleCheck_def cpuDecision_def Let_def)
  from nextStage_early [OF this assms(3)] show ?thesis
    by simp
qed

text \<open>
  Claim C9. The opponent's raise after a check takes the bet unit from the opponent's
  stack without asking whether the stack holds it: there is a state of a session with
  \<open>0 < cpuChips < bet\<close> in which a Check leaves the opponent's stack negative. The state
  is \<open>shortStackState\<close> (stack 50, bet unit 900) and the stack becomes \<open>-850\<close>.
\<close>

theorem check_raise_unaffordable:
  "\<exists>s rnd s'. reachable s \<and> stage s = ''playing'' \<and> 0 < cpuChips s \<and> cpuChips s < bet s
      \<and> valid_rnd rnd \<and> handleCheck s rnd = Inr s' \<and> cpuChips s' < 0"
proof -
  have "handleCheck shortStackState lowRnd
      = Inr (shortStackState\<lparr> deck := take 44 orderedDeck,
               community := [Card R10 Club, Card R9 Club, Card R8 Club, Card R7 Club],
               cpuChips := - 850, pot := 1900 \<rparr>)"
    by (simp add: shortStackState_def step_defs pop_def orderedDeck_eq lowRnd_def)
  moreover have "stage shortStackState = ''playing'' \<and> 0 < cpuChips shortStackState
      \<and> cpuChips shortStackState < bet shortStackState"
    by (simp add: shortStackState_def)
  ultimately show ?thesis
    using reachable_shortStackState valid_lowRnd
    by (intro exI [of _ shortStackState] exI [of _ lowRnd]
          exI [of _ "shortStackState\<lparr> deck := take 44 orderedDeck,
               community := [Card R10 Club, Card R9 Club, Card R8 Club, Card R7 Club],
               cpuChips := - 850, pot := 1900 \<rparr>"]) simp
qed

section \<open>What the evaluator is given\<close>

lemma strength_finite: "cards \<noteq> [] \<Longrightarrow> \<exists>x. strength (evaluateHandRank cards) = Num x"
proof -
  assume "cards \<noteq> []"
  moreover have "length (ranksOf cards) = length cards"
    by (simp add: ranksOf_def)
  ultimately have "ranksOf cards \<noteq> []"
    by auto
  then obtain r rs where "ranksOf cards = r # rs"
    by (cases "ranksOf cards") auto
  then show ?thesis
    by (simp add: evaluateHandRank_def Let_def)
qed

lemma wellFormed_distinct:
  assumes "wellFormed s"
  shows "distinct (deck s @ player s @ cpu s @ community s)"
proof -
  from assms have "mset (deck s @ player s @ cpu s @ community s) = mset orderedDeck"
    by (simp add: wellFormed_def)
  then show ?thesis
    using distinct_orderedDeck mset_eq_imp_distinct_iff by blast
qed

text \<open>
  Claim C4, as the code has it. The evaluator has no failure: \<^verbatim>\<open>evaluateHandRank\<close> returns
  a name and a strength for every list of cards, also for fewer than five and for
  repeated cards. In a session it is never given a repeated card, but it is given fewer
  than five: whenever cards are dealt, \<^verbatim>\<open>cpuDecision\<close> evaluates the opponent's two hole
  cards with the 0, 3, 4 or 5 community cards (and the rendering and the showdown do the
  same with the player's), that is 2, 5, 6 or 7 distinct cards, and the strength is a
  finite number.
\<close>

theorem evaluator_inputs:
  assumes "reachable s" and "stage s \<noteq> ''ready''"
  shows "distinct (cpuEvalInput s) \<and> distinct (player s @ community s)
     \<and> length (cpuEvalInput s) = 2 + length (community s)
     \<and> length (player s @ community s) = 2 + length (community s)
     \<and> length (community s) \<in> {0, 3, 4, 5}
     \<and> (\<exists>x. strength (evaluateHandRank (cpuEvalInput s)) = Num x)"
proof -
  from assms(1) have wf: "wellFormed s"
    by (rule reachable_wellFormed)
  from wellFormed_distinct [OF wf]
  have "distinct (cpuEvalInput s)" and "distinct (player s @ community s)"
    by (auto simp: cpuEvalInput_def)
  moreover from wf assms(2) have len: "length (cpu s) = 2" "length (player s) = 2"
    and "length (community s) \<in> {0, 3, 4, 5}"
    by (auto simp: wellFormed_def)
  moreover from len have "cpuEvalInput s \<noteq> []"
    by (auto simp: cpuEvalInput_def)
  then have "\<exists>x. strength (evaluateHandRank (cpuEvalInput s)) = Num x"
    by (rule strength_finite)
  ultimately show ?thesis
    by (simp add: cpuEvalInput_def)
qed

theorem evaluator_inputs_witness:
  "reachable dealtState \<and> stage dealtState \<noteq> ''ready'' \<and> stage dealtState = ''playing''
   \<and> distinct (cpuEvalInput dealtState)
   \<and> length (cpuEvalInput dealtState) = 2 + length (community dealtState)
   \<and> length (community dealtState) = 0"
proof -
  have st: "stage dealtState \<noteq> ''ready''"
    by (simp add: dealtState_def)
  have "stage dealtState = ''playing'' \<and> length (community dealtState) = 0"
    by (simp add: dealtState_def)
  with evaluator_inputs [OF reachable_dealtState st] reachable_dealtState
  show ?thesis
    by simp
qed

text \<open>
  Claim C4 as stated fails: right after Deal the opponent's policy evaluates two cards
  (Q\<clubsuit> J\<clubsuit>: High Card, \<open>0 + 12/100\<close>) and the Check goes through; and a hand with a
  repeated card (A\<spadesuit> twice) is evaluated like any other.
\<close>

theorem evaluator_called_on_two_cards:
  "reachable dealtState \<and> stage dealtState = ''playing''
   \<and> cpuEvalInput dealtState = [Card RQ Club, Card RJ Club]
   \<and> evaluateHandRank (cpuEvalInput dealtState)
       = \<lparr> rank_name = ''High Card'', strength = Num (12 / 100) \<rparr>
   \<and> handleCheck dealtState highRnd
       = Inr (dealtState\<lparr> deck := take 45 orderedDeck,
                community := [Card R10 Club, Card R9 Club, Card R8 Club],
                message := ''CPU checks.'' \<rparr>)
   \<and> evaluateHandRank [Card RA Spade, Card RA Spade, Card RK Heart, Card RQ Heart, Card RJ Heart]
       = \<lparr> rank_name = ''One Pair'', strength = Num (114 / 100) \<rparr>"
proof -
  have 1: "stage dealtState = ''playing''
      \<and> cpuEvalInput dealtState = [Card RQ Club, Card RJ Club]"
    by (simp add: dealtState_def cpuEvalInput_def)
  have 2: "evaluateHandRank [Card RQ Club, Card RJ Club]
      = \<lparr> rank_name = ''High Card'', strength = Num (12 / 100) \<rparr>"
    by (simp add: Card_def eval_defs)
  have 3: "handleCheck dealtState highRnd
       = Inr (dealtState\<lparr> deck := take 45 orderedDeck,
                community := [Card R10 Club, Card R9 Club, Card R8 Club],
                message := ''CPU checks.'' \<rparr>)"
    by (simp add: dealtState_def step_defs pop_def orderedDeck_eq highRnd_def Card_def
          eval_defs)
  have 4: "evaluateHandRank
        [Card RA Spade, Card RA Spade, Card RK Heart, Card RQ Heart, Card RJ Heart]
      = \<lparr> rank_name = ''One Pair'', strength = Num (114 / 100) \<rparr>"
    by (simp add: Card_def eval_defs)
  from reachable_dealtState 1 2 3 4 show ?thesis
    by simp
qed

section \<open>Settlement\<close>

lemma handleRaise_folded:
  assumes "stage s = ''playing''" and "handleRaise s rnd = Inr s'" and "stage s' = ''folded''"
  shows "playerChips s' = (playerChips s - bet s) + (pot s + bet s) \<and> cpuChips s' = cpuChips s
     \<and> pot s' = pot s + bet s"
proof (cases "bet s \<le> playerChips s")
  case False
  with assms show ?thesis
    by (simp add: handleRaise_def)
next
  case True
  show ?thesis
  proof (cases "(js_less (Num 5) (strength (evaluateHandRank (cpu s @ community s))) \<or> rnd 0 < 1 / 4)
          \<and> bet s \<le> cpuChips s")
    case call: True
    with assms(1,2) True obtain q where q: "nextStage s q = Inr s'" and "stage q = ''playing''"
      by (auto simp: handleRaise_def cpuDecision_def cpuEvalInput_def Let_def)
    then have "stage s' \<noteq> ''folded''"
      by (auto simp: nextStage_def evaluateWinner_def Let_def split: if_splits option.splits prod.splits)
    with assms(3) show ?thesis
      by simp
  next
    case False
    with assms(1,2) True show ?thesis
      by (auto simp: handleRaise_def cpuDecision_def cpuEvalInput_def Let_def split: if_splits)
  qed
qed

lemma evaluateWinner_pays:
  "stage (evaluateWinner s q) = ''showdown''
   \<and> playerChips (evaluateWinner s q) + cpuChips (evaluateWinner s q)
       = playerChips q + cpuChips q + pot s
   \<and> pot (evaluateWinner s q) = pot q"
  by (simp add: evaluateWinner_def Let_def)

lemma handleCheck_river:
  assumes "stage s = ''playing''" and "5 \<le> length (community s)"
    and "handleCheck s rnd = Inr s'" and "pot s' = pot s"
  shows "stage s' = ''showdown'' \<and> playerChips s' + cpuChips s' = playerChips s + cpuChips s + pot s"
proof -
  from assms(1,2,3) obtain q where s': "s' = evaluateWinner s q"
    and q: "q = s\<lparr>message := ''CPU checks.''\<rparr> \<or> 
       (cpuChips q = cpuChips s - bet s \<and> pot q = pot s + bet s \<and> playerChips q = playerChips s)"
    by (auto simp: handleCheck_def cpuDecision_def nextStage_def Let_def split: if_splits)
  from assms(4) s' have "pot q = pot s"
    using evaluateWinner_pays [of s q] by simp
  with q have "cpuChips q = cpuChips s \<and> playerChips q = playerChips s"
    by auto
  with s' show ?thesis
    using evaluateWinner_pays [of s q] by simp
qed

text \<open>
  Claim C2, as the code has it. Settlement pays the pot to the stacks and leaves the pot
  cell as it is: after Fold, after the opponent's fold to a raise, and after a showdown
  reached by a Check in which no chips were added to the pot, \<open>playerChips + cpuChips\<close> is
  the sum of the two stacks and the pot before (for the raise: \<open>(playerChips - A) + cpuChips
  + (pot + A)\<close>), and \<open>pot\<close> keeps its value through the stages \<^verbatim>\<open>showdown\<close> and \<^verbatim>\<open>folded\<close>;
  Reset is what sets it to 0, leaving the stacks alone.
\<close>

theorem settlement_pays_pot:
  "(stage (handleFold s) = ''folded''
      \<and> playerChips (handleFold s) + cpuChips (handleFold s) = playerChips s + cpuChips s + pot s
      \<and> pot (handleFold s) = pot s)
   \<and> (stage s = ''playing'' \<and> handleRaise s rnd = Inr s1 \<and> stage s1 = ''folded''
        \<longrightarrow> playerChips s1 + cpuChips s1 = playerChips s + cpuChips s + pot s
            \<and> pot s1 = pot s + bet s)
   \<and> (stage s = ''playing'' \<and> 5 \<le> length (community s) \<and> handleCheck s rnd = Inr s2
        \<and> pot s2 = pot s
        \<longrightarrow> stage s2 = ''showdown''
            \<and> playerChips s2 + cpuChips s2 = playerChips s + cpuChips s + pot s)
   \<and> (pot (reset s rnd) = 0 \<and> playerChips (reset s rnd) = playerChips s
        \<and> cpuChips (reset s rnd) = cpuChips s)"
proof -
  have "stage (handleFold s) = ''folded''
      \<and> playerChips (handleFold s) + cpuChips (handleFold s) = playerChips s + cpuChips s + pot s
      \<and> pot (handleFold s) = pot s"
    by (simp add: handleFold_def)
  moreover have "stage s = ''playing'' \<and> handleRaise s rnd = Inr s1 \<and> stage s1 = ''folded''
        \<longrightarrow> playerChips s1 + cpuChips s1 = playerChips s + cpuChips s + pot s
            \<and> pot s1 = pot s + bet s"
    using handleRaise_folded [of s rnd s1] by auto
  moreover have "stage s = ''playing'' \<and> 5 \<le> length (community s) \<and> handleCheck s rnd = Inr s2
        \<and> pot s2 = pot s
        \<longrightarrow> stage s2 = ''showdown''
            \<and> playerChips s2 + cpuChips s2 = playerChips s + cpuChips s + pot s"
    using handleCheck_river [of s rnd s2] by blast
  moreover have "pot (reset s rnd) = 0 \<and> playerChips (reset s rnd) = playerChips s
        \<and> cpuChips (reset s rnd) = cpuChips s"
    by (simp add: reset_def)
  ultimately show ?thesis
    by blast
qed

theorem settlement_pays_pot_witness:
  "stage dealtState = ''playing'' \<and> handleRaise dealtState highRnd = Inr foldedState
   \<and> stage foldedState = ''folded''
   \<and> playerChips foldedState + cpuChips foldedState
       = playerChips dealtState + cpuChips dealtState + pot dealtState
   \<and> pot foldedState = pot dealtState + bet dealtState
   \<and> stage riverState = ''playing'' \<and> 5 \<le> length (community riverState)
   \<and> handleCheck riverState highRnd = Inr showdownState
   \<and> pot showdownState = pot riverState
   \<and> stage showdownState = ''showdown''
   \<and> playerChips showdownState + cpuChips showdownState
       = playerChips riverState + cpuChips riverState + pot riverState"
proof -
  have a: "stage dealtState = ''playing'' \<and> handleRaise dealtState highRnd = Inr foldedState
      \<and> stage foldedState = ''folded''"
    using handleRaise_dealtState by (simp add: dealtState_def foldedState_def)
  have b: "stage riverState = ''playing'' \<and> 5 \<le> length (community riverState)
      \<and> handleCheck riverState highRnd = Inr showdownState
      \<and> pot showdownState = pot riverState"
    using handleCheck_riverState
    by (simp add: riverState_def dealtState_def showdownState_def)
  from a settlement_pays_pot [of dealtState highRnd foldedState]
  have "playerChips foldedState + cpuChips foldedState
       = playerChips dealtState + cpuChips dealtState + pot dealtState
      \<and> pot foldedState = pot dealtState + bet dealtState"
    by blast
  moreover from b settlement_pays_pot [of riverState highRnd _ showdownState]
  have "stage showdownState = ''showdown''
      \<and> playerChips showdownState + cpuChips showdownState
          = playerChips riverState + cpuChips riverState + pot riverState"
    by blast
  ultimately show ?thesis
    using a b by blast
qed

text \<open>
  Claim C2 as stated fails: after the opponent's fold and after a showdown the pot is
  still on display (150 and 100), not 0.
\<close>

theorem pot_kept_after_settlement:
  "reachable foldedState \<and> stage foldedState = ''folded'' \<and> pot foldedState = 150
   \<and> reachable showdownState \<and> stage showdownState = ''showdown'' \<and> pot showdownState = 100
   \<and> reachable (handleFold dealtState) \<and> stage (handleFold dealtState) = ''folded''
   \<and> pot (handleFold dealtState) = 100"
proof -
  have "reachable (handleFold dealtState)"
    using reachable_dealtState by (rule r_fold) (simp add: dealtState_def)
  then show ?thesis
    using reachable_foldedState reachable_showdownState
    by (simp add: foldedState_def showdownState_def dealtState_def handleFold_def)
qed

text \<open>
  Not part of the claim as amended: a showdown reached by an action that itself adds
  chips to the pot pays out the pot of the last render. A Raise of 50 on the river that
  the opponent calls moves 100 into the pot and pays the winner the 100 that were there
  before.
\<close>

lemma river_raise_pays_previous_pot:
  "handleRaise riverState lowRnd
     = Inr (riverState\<lparr> playerChips := 900, cpuChips := 1000, pot := 200,
              message := ''CPU Wins. (Straight Flush)'', stage := ''showdown'' \<rparr>)"
  by (simp add: riverState_def dealtState_def step_defs lowRnd_def Card_def eval_defs)

section \<open>Chip conservation while the round continues\<close>

lemma deal_total:
  assumes "pot s = 0" and "deal s = Inr s'"
  shows "playerChips s' + cpuChips s' + pot s' = playerChips s + cpuChips s + pot s"
  using assms
  by (auto simp: deal_def Let_def split: if_splits option.splits prod.splits)

lemma nextStage_total:
  assumes "length (community s) < 5" and "nextStage s q = Inr s'"
  shows "playerChips s' + cpuChips s' + pot s' = playerChips q + cpuChips q + pot q"
  using nextStage_early [OF assms(2,1)] by simp

lemma handleCheck_total:
  assumes "length (community s) < 5" and "handleCheck s rnd = Inr s'"
  shows "playerChips s' + cpuChips s' + pot s' = playerChips s + cpuChips s + pot s"
proof (cases "stage s = ''playing''")
  case False
  with assms(2) show ?thesis
    by (simp add: handleCheck_def)
next
  case True
  with assms(2) obtain q where q: "nextStage s q = Inr s'"
    and "playerChips q + cpuChips q + pot q = playerChips s + cpuChips s + pot s"
    by (auto simp: handleCheck_def cpuDecision_def Let_def split: if_splits)
  with nextStage_total [OF assms(1) q] show ?thesis
    by simp
qed

lemma handleRaise_total:
  assumes "length (community s) < 5" and "handleRaise s rnd = Inr s'" and "stage s' = stage s"
  shows "playerChips s' + cpuChips s' + pot s' = playerChips s + cpuChips s + pot s"
proof (cases "stage s = ''playing'' \<and> bet s \<le> playerChips s")
  case False
  with assms(2) show ?thesis
    by (auto simp: handleRaise_def)
next
  case True
  with assms(2,3) obtain q where q: "nextStage s q = Inr s'"
    and "playerChips q + cpuChips q + pot q = playerChips s + cpuChips s + pot s"
    by (auto simp: handleRaise_def cpuDecision_def Let_def split: if_splits)
  with nextStage_total [OF assms(1) q] show ?thesis
    by simp
qed

lemma ready_pot: "reachable s \<Longrightarrow> stage s = ''ready'' \<Longrightarrow> pot s = 0"
  using reachable_wellFormed [of s] by (simp add: wellFormed_def)

text \<open>
  Claim C5, as the code has it. The sum \<open>playerChips + cpuChips + pot\<close> is the same before
  and after Deal from an empty pot (and the pot is empty in every \<^verbatim>\<open>ready\<close> state of a
  session), and before and after a Check (whatever the opponent answers), a Raise and
  \<^verbatim>\<open>nextStage\<close>, as long as the action does not end the round: fewer than five community
  cards are out and the opponent does not fold. What the pot gains is what the two
  stacks lose.
\<close>

theorem chips_conserved_while_round_continues:
  "(reachable s \<and> stage s = ''ready'' \<longrightarrow> pot s = 0)
   \<and> (pot s = 0 \<and> deal s = Inr s1
        \<longrightarrow> playerChips s1 + cpuChips s1 + pot s1 = playerChips s + cpuChips s + pot s)
   \<and> (length (community s) < 5 \<and> handleCheck s rnd = Inr s2
        \<longrightarrow> playerChips s2 + cpuChips s2 + pot s2 = playerChips s + cpuChips s + pot s)
   \<and> (length (community s) < 5 \<and> handleRaise s rnd = Inr s3 \<and> stage s3 = stage s
        \<longrightarrow> playerChips s3 + cpuChips s3 + pot s3 = playerChips s + cpuChips s + pot s)
   \<and> (length (community s) < 5 \<and> nextStage s s = Inr s4
        \<longrightarrow> playerChips s4 + cpuChips s4 + pot s4 = playerChips s + cpuChips s + pot s)"
  using ready_pot [of s] deal_total [of s s1] handleCheck_total [of s rnd s2]
    handleRaise_total [of s rnd s3] nextStage_total [where s = s and q = s and s' = s4]
  by blast

theorem chips_conserved_witness:
  "reachable (initialState highRnd) \<and> stage (initialState highRnd) = ''ready''
   \<and> pot (initialState highRnd) = 0 \<and> deal (initialState highRnd) = Inr dealtState
   \<and> playerChips dealtState + cpuChips dealtState + pot dealtState
       = playerChips (initialState highRnd) + cpuChips (initialState highRnd)
         + pot (initialState highRnd)
   \<and> length (community (setBet 900 dealtState)) < 5
   \<and> handleCheck (setBet 900 dealtState) lowRnd = Inr shortStackState
   \<and> playerChips shortStackState + cpuChips shortStackState + pot shortStackState
       = playerChips (setBet 900 dealtState) + cpuChips (setBet 900 dealtState)
         + pot (setBet 900 dealtState)
   \<and> length (community dealtState) < 5
   \<and> handleRaise dealtState lowRnd
       = Inr (dealtState\<lparr> playerChips := 900, cpuChips := 900, pot := 200,
                message := ''CPU calls your raise.'', deck := take 45 orderedDeck,
                community := [Card R10 Club, Card R9 Club, Card R8 Club] \<rparr>)
   \<and> playerChips dealtState + cpuChips dealtState + pot dealtState = 2000
   \<and> nextStage dealtState dealtState
       = Inr (dealtState\<lparr> deck := take 45 orderedDeck,
                community := [Card R10 Club, Card R9 Club, Card R8 Club] \<rparr>)"
proof -
  let ?called = "dealtState\<lparr> playerChips := 900, cpuChips := 900, pot := 200,
                message := ''CPU calls your raise.'', deck := take 45 orderedDeck,
                community := [Card R10 Club, Card R9 Club, Card R8 Club] \<rparr>"
  let ?flop = "dealtState\<lparr> deck := take 45 orderedDeck,
                community := [Card R10 Club, Card R9 Club, Card R8 Club] \<rparr>"
  have i: "reachable (initialState highRnd)"
    using valid_highRnd by (rule r_init)
  have r: "stage (initialState highRnd) = ''ready''"
    by (simp add: initialState_def)
  have d: "deal (initialState highRnd) = Inr dealtState"
    by (simp add: dealtState_def initialState_def freshDeck_highRnd deal_def pop_def
          orderedDeck_eq)
  have c: "length (community (setBet 900 dealtState)) < 5
      \<and> handleCheck (setBet 900 dealtState) lowRnd = Inr shortStackState"
    by (simp add: shortStackState_def dealtState_def step_defs pop_def orderedDeck_eq
          lowRnd_def)
  have ra: "length (community dealtState) < 5 \<and> handleRaise dealtState lowRnd = Inr ?called
      \<and> stage ?called = stage dealtState"
    by (simp add: dealtState_def step_defs pop_def orderedDeck_eq lowRnd_def)
  have n: "nextStage dealtState dealtState = Inr ?flop"
    by (simp add: dealtState_def nextStage_def pop_def orderedDeck_eq)
  from i r chips_conserved_while_round_continues [of "initialState highRnd"]
  have p0: "pot (initialState highRnd) = 0"
    by blast
  with d chips_conserved_while_round_continues [of "initialState highRnd" dealtState]
  have 1: "playerChips dealtState + cpuChips dealtState + pot dealtState
       = playerChips (initialState highRnd) + cpuChips (initialState highRnd)
         + pot (initialState highRnd)"
    by blast
  from c chips_conserved_while_round_continues [of "setBet 900 dealtState" _ lowRnd shortStackState]
  have 2: "playerChips shortStackState + cpuChips shortStackState + pot shortStackState
       = playerChips (setBet 900 dealtState) + cpuChips (setBet 900 dealtState)
         + pot (setBet 900 dealtState)"
    by blast
  from ra n chips_conserved_while_round_continues [of dealtState _ lowRnd _ ?called ?flop]
  have 3: "playerChips ?called + cpuChips ?called + pot ?called
       = playerChips dealtState + cpuChips dealtState + pot dealtState"
    by blast
  then have 4: "playerChips dealtState + cpuChips dealtState + pot dealtState = 2000"
    by simp
  from i r p0 d 1 c 2 ra 4 n show ?thesis
    by blast
qed

text \<open>
  Claim C5 as stated fails for a Raise that the opponent folds to: the player is paid
  the pot and the pot is not cleared, so the sum goes from 2000 to 2150.
\<close>

theorem raise_answered_by_fold_changes_total:
  "reachable dealtState \<and> stage dealtState = ''playing''
   \<and> handleRaise dealtState highRnd = Inr foldedState
   \<and> playerChips dealtState + cpuChips dealtState + pot dealtState = 2000
   \<and> playerChips foldedState + cpuChips foldedState + pot foldedState = 2150"
  using reachable_dealtState handleRaise_dealtState
  by (simp add: foldedState_def dealtState_def)

section \<open>Deal\<close>










end
